theory Spec2Isabelle
  imports Complex_Main "HOL-Library.Sublist"
begin

section \<open>The command line of the entrypoint\<close>

text \<open>
  \<^verbatim>\<open>AirbyteEntrypoint.start\<close> (entrypoint.py, lines 48-80) builds an \<^verbatim>\<open>argparse\<close>
  parser with a \<^verbatim>\<open>command\<close> sub-parser action and the four sub-parsers \<^verbatim>\<open>spec\<close>,
  \<^verbatim>\<open>check\<close>, \<^verbatim>\<open>discover\<close> and \<^verbatim>\<open>read\<close>, and calls \<^verbatim>\<open>parse_args\<close>. The parsing
  itself is done by the Python standard library; this section writes down what CPython's
  \<^verbatim>\<open>argparse\<close> (the algorithm of \<^verbatim>\<open>_parse_known_args\<close> as of CPython 3.11) computes for
  exactly this parser: prefix character \<^verbatim>\<open>-\<close>, abbreviations allowed, every parser with its
  default \<^verbatim>\<open>-h\<close>/\<^verbatim>\<open>--help\<close>, sub-parsers not required (so that no command at all is
  accepted, with \<^verbatim>\<open>command\<close> left \<^verbatim>\<open>None\<close>). Argument strings are byte strings. The parser
  leaves by \<^verbatim>\<open>sys.exit\<close>: status 0 after printing the help text, status 2 after a usage
  error; \<open>Inl status\<close> stands for that.
\<close>

datatype dest = config_dest | catalog_dest | state_dest

datatype action = HelpAction | StoreAction dest

type_synonym option_string_actions = "(string \<times> action) list"

text \<open>The namespace \<^verbatim>\<open>parsed_args\<close>; \<open>None\<close> is Python's \<^verbatim>\<open>None\<close> (or an attribute the
  chosen sub-parser does not define).\<close>

record Namespace =
  command :: "string option"
  config :: "string option"
  catalog :: "string option"
  state :: "string option"

definition empty_namespace :: Namespace where
  "empty_namespace = \<lparr>command = None, config = None, catalog = None, state = None\<rparr>"

fun setattr :: "dest \<Rightarrow> string \<Rightarrow> Namespace \<Rightarrow> Namespace" where
  "setattr config_dest v ns = ns\<lparr>config := Some v\<rparr>"
| "setattr catalog_dest v ns = ns\<lparr>catalog := Some v\<rparr>"
| "setattr state_dest v ns = ns\<lparr>state := Some v\<rparr>"

fun getattr :: "dest \<Rightarrow> Namespace \<Rightarrow> string option" where
  "getattr config_dest ns = config ns"
| "getattr catalog_dest ns = catalog ns"
| "getattr state_dest ns = state ns"

text \<open>A sub-parser: its option strings in the order they were added, and the destinations
  of its required options.\<close>

record Parser =
  option_strings :: option_string_actions
  required :: "dest list"

definition help_options :: option_string_actions where
  "help_options = [(''-h'', HelpAction), (''--help'', HelpAction)]"

definition main_parser :: Parser where
  "main_parser = \<lparr>option_strings = help_options, required = []\<rparr>"

definition spec_parser :: Parser where
  "spec_parser = \<lparr>option_strings = help_options, required = []\<rparr>"

definition check_parser :: Parser where
  "check_parser = \<lparr>option_strings = help_options @ [(''--config'', StoreAction config_dest)],
     required = [config_dest]\<rparr>"

definition discover_parser :: Parser where
  "discover_parser = \<lparr>option_strings = help_options @ [(''--config'', StoreAction config_dest)],
     required = [config_dest]\<rparr>"

definition read_parser :: Parser where
  "read_parser = \<lparr>option_strings = help_options @
       [(''--state'', StoreAction state_dest), (''--config'', StoreAction config_dest),
        (''--catalog'', StoreAction catalog_dest)],
     required = [config_dest, catalog_dest]\<rparr>"

definition name_parser_map :: "(string \<times> Parser) list" where
  "name_parser_map =
     [(''spec'', spec_parser), (''check'', check_parser),
      (''discover'', discover_parser), (''read'', read_parser)]"

subsection \<open>Classifying one argument string\<close>

text \<open>The option tuple \<^verbatim>\<open>(action, option_string, sep, explicit_arg)\<close> of
  \<^verbatim>\<open>_parse_optional\<close>; the action is \<open>None\<close> for a string that looks like an option
  this parser does not have.\<close>

datatype option_tuple =
  OptionTuple (ot_action: "action option") (ot_option_string: string)
    (ot_sep: "string option") (ot_explicit_arg: "string option")

text \<open>\<^verbatim>\<open>str.partition('=')\<close>: the part before the first \<^verbatim>\<open>=\<close>, whether there is one, and
  the part after it.\<close>

definition partition_eq :: "string \<Rightarrow> string \<times> bool \<times> string" where
  "partition_eq s =
     (takeWhile (\<lambda>c. c \<noteq> CHR ''='') s, CHR ''='' \<in> set s,
      drop 1 (dropWhile (\<lambda>c. c \<noteq> CHR ''='') s))"

definition get_option_tuples :: "option_string_actions \<Rightarrow> string \<Rightarrow> nat + option_tuple list" where
  "get_option_tuples opts option_string =
     (case option_string of
        c0 # c1 # _ \<Rightarrow>
          if c0 = CHR ''-'' \<and> c1 = CHR ''-'' then
            (case partition_eq option_string of (option_prefix, sep, explicit_arg) \<Rightarrow>
               Inr (map (\<lambda>(s, a). OptionTuple (Some a) s
                           (if sep then Some ''='' else None)
                           (if sep then Some explicit_arg else None))
                      (filter (\<lambda>(s, a). prefix option_prefix s) opts)))
          else if c0 = CHR ''-'' \<and> c1 \<noteq> CHR ''-'' then
            Inr (concat (map (\<lambda>(s, a).
                   if s = take 2 option_string
                   then [OptionTuple (Some a) s (Some '''') (Some (drop 2 option_string))]
                   else if prefix option_string s then [OptionTuple (Some a) s None None]
                   else []) opts))
          else Inl 2
      | _ \<Rightarrow> Inl 2)"

text \<open>The regular expression \<^verbatim>\<open>^-\d+$|^-\d*\.\d+$\<close> of \<^verbatim>\<open>_negative_number_matcher\<close>
  (\<^verbatim>\<open>$\<close> also matches before one final newline). \<^verbatim>\<open>\d\<close> is taken as an ASCII digit; on
  Python strings it also matches the decimal digits of other scripts.\<close>

definition digit :: "char \<Rightarrow> bool" where
  "digit c = (c \<in> set ''0123456789'')"

definition negative_number :: "string \<Rightarrow> bool" where
  "negative_number s =
     (case s of
        [] \<Rightarrow> False
      | c # r \<Rightarrow> c = CHR ''-'' \<and>
          ((r \<noteq> [] \<and> list_all digit r) \<or>
           (case dropWhile digit r of
              [] \<Rightarrow> False
            | d # f \<Rightarrow> d = CHR ''.'' \<and> f \<noteq> [] \<and> list_all digit f)))"

definition negative_number_matcher :: "string \<Rightarrow> bool" where
  "negative_number_matcher s =
     (negative_number s \<or> (s \<noteq> [] \<and> last s = CHR 0x0A \<and> negative_number (butlast s)))"

text \<open>\<^verbatim>\<open>_parse_optional\<close>: \<open>Inr None\<close> is a positional argument, \<open>Inr (Some t)\<close> an option
  string, \<open>Inl 2\<close> the usage error for an ambiguous abbreviation.\<close>

definition parse_optional :: "option_string_actions \<Rightarrow> string \<Rightarrow> nat + option_tuple option" where
  "parse_optional opts arg_string =
     (if arg_string = [] then Inr None
      else if hd arg_string \<noteq> CHR ''-'' then Inr None
      else case map_of opts arg_string of
        Some a \<Rightarrow> Inr (Some (OptionTuple (Some a) arg_string None None))
      | None \<Rightarrow>
          if length arg_string = 1 then Inr None
          else case partition_eq arg_string of (option_string, sep, explicit_arg) \<Rightarrow>
            (case (if sep then map_of opts option_string else None) of
               Some a \<Rightarrow> Inr (Some (OptionTuple (Some a) option_string (Some ''='') (Some explicit_arg)))
             | None \<Rightarrow>
                 (case get_option_tuples opts arg_string of
                    Inl status \<Rightarrow> Inl status
                  | Inr option_tuples \<Rightarrow>
                      if length option_tuples > 1 then Inl 2
                      else if length option_tuples = 1 then Inr (Some (hd option_tuples))
                      else if negative_number_matcher arg_string then Inr None
                      else if CHR '' '' \<in> set arg_string then Inr None
                      else Inr (Some (OptionTuple None arg_string None None)))))"

text \<open>The pattern of the argument strings: \<^verbatim>\<open>A\<close> for an argument, \<^verbatim>\<open>-\<close> for the string
  \<^verbatim>\<open>--\<close>, \<^verbatim>\<open>O\<close> for an option (with its tuple, as \<^verbatim>\<open>option_string_indices\<close> keeps it).
  Every string after \<^verbatim>\<open>--\<close> is an argument.\<close>

datatype pattern = PatA | PatDash | PatO option_tuple

fun arg_strings_pattern :: "option_string_actions \<Rightarrow> string list \<Rightarrow> nat + (string \<times> pattern) list" where
  "arg_strings_pattern opts [] = Inr []"
| "arg_strings_pattern opts (arg_string # arg_strings) =
     (if arg_string = ''--'' then Inr ((arg_string, PatDash) # map (\<lambda>s. (s, PatA)) arg_strings)
      else case parse_optional opts arg_string of
        Inl status \<Rightarrow> Inl status
      | Inr option_tuple \<Rightarrow>
          (case arg_strings_pattern opts arg_strings of
             Inl status \<Rightarrow> Inl status
           | Inr rest \<Rightarrow>
               Inr ((arg_string, case option_tuple of None \<Rightarrow> PatA | Some t \<Rightarrow> PatO t) # rest)))"

subsection \<open>Consuming an option\<close>

text \<open>\<^verbatim>\<open>_match_argument(action, 'A')\<close>: the help action takes no argument string, a store
  action exactly one.\<close>

fun arg_count :: "action \<Rightarrow> nat" where
  "arg_count HelpAction = 0"
| "arg_count (StoreAction d) = 1"

text \<open>The \<^verbatim>\<open>while True\<close> loop of \<^verbatim>\<open>consume_optional\<close>, entered with a known action. It
  returns the action tuples to take, the strings added to \<^verbatim>\<open>extras\<close> and the number of
  following argument strings used, or the status of the usage error. A character that is
  no option, in a cluster after \<^verbatim>\<open>-h\<close>, goes to \<^verbatim>\<open>extras\<close> as in the current 3.11
  releases; earlier releases raise a usage error there. Either way the outcome is the help
  text or a usage error, and the properties below hold for both.\<close>

function consume_optional_loop ::
  "option_string_actions \<Rightarrow> (string \<times> pattern) list \<Rightarrow> action \<Rightarrow> string \<Rightarrow> string option \<Rightarrow>
   string option \<Rightarrow> (action \<times> string list) list \<Rightarrow>
   nat + ((action \<times> string list) list \<times> string list \<times> nat)" where
  "consume_optional_loop opts following action option_string sep explicit_arg action_tuples =
     (case explicit_arg of
        Some e \<Rightarrow>
          if arg_count action = 0 \<and> take 1 (drop 1 option_string) \<noteq> ''-'' \<and> e \<noteq> [] then
            if sep = Some ''='' \<or> hd e = CHR ''-'' then Inl 2
            else (case map_of opts [CHR ''-'', hd e] of
                    Some action' \<Rightarrow>
                      if tl e = [] then
                        consume_optional_loop opts following action' [CHR ''-'', hd e] None None
                          (action_tuples @ [(action, [])])
                      else if hd (tl e) = CHR ''='' then
                        consume_optional_loop opts following action' [CHR ''-'', hd e]
                          (Some ''='') (Some (tl (tl e))) (action_tuples @ [(action, [])])
                      else
                        consume_optional_loop opts following action' [CHR ''-'', hd e]
                          (Some '''') (Some (tl e)) (action_tuples @ [(action, [])])
                  | None \<Rightarrow> Inr (action_tuples @ [(action, [])], [CHR ''-'' # e], 0))
          else if arg_count action = 1 then Inr (action_tuples @ [(action, [e])], [], 0)
          else Inl 2
      | None \<Rightarrow>
          if arg_count action = 0 then Inr (action_tuples @ [(action, [])], [], 0)
          else (case following of
                  (s, PatA) # _ \<Rightarrow> Inr (action_tuples @ [(action, [s])], [], 1)
                | _ \<Rightarrow> Inl 2))"
  by pat_completeness auto
termination
  by (relation "measure (\<lambda>(opts, following, action, option_string, sep, explicit_arg, action_tuples).
        case explicit_arg of None \<Rightarrow> 0 | Some e \<Rightarrow> Suc (length e))")
     (auto simp: neq_Nil_conv)

text \<open>\<^verbatim>\<open>take_action\<close>: the help action prints the help text and leaves with status 0; a
  store action sets its destination to the one string it was given (the loop above never
  hands it another number of strings; the last equation only makes the function total).\<close>

fun take_action :: "action \<times> string list \<Rightarrow> Namespace \<Rightarrow> nat + Namespace" where
  "take_action (HelpAction, values) ns = Inl 0"
| "take_action (StoreAction d, [v]) ns = Inr (setattr d v ns)"
| "take_action (StoreAction d, values) ns = Inl 2"

fun take_actions :: "(action \<times> string list) list \<Rightarrow> Namespace \<Rightarrow> nat + Namespace" where
  "take_actions [] ns = Inr ns"
| "take_actions (t # ts) ns =
     (case take_action t ns of Inl status \<Rightarrow> Inl status | Inr ns' \<Rightarrow> take_actions ts ns')"

definition consume_optional ::
  "option_string_actions \<Rightarrow> string \<Rightarrow> option_tuple \<Rightarrow> (string \<times> pattern) list \<Rightarrow> Namespace \<Rightarrow>
   nat + (Namespace \<times> string list \<times> nat)" where
  "consume_optional opts arg_string t following ns =
     (case ot_action t of
        None \<Rightarrow> Inr (ns, [arg_string], 0)
      | Some action \<Rightarrow>
          (case consume_optional_loop opts following action (ot_option_string t) (ot_sep t)
                  (ot_explicit_arg t) [] of
             Inl status \<Rightarrow> Inl status
           | Inr (action_tuples, new_extras, n) \<Rightarrow>
               (case take_actions action_tuples ns of
                  Inl status \<Rightarrow> Inl status
                | Inr ns' \<Rightarrow> Inr (ns', new_extras, n))))"

subsection \<open>The sub-parsers and the main parser\<close>

text \<open>\<^verbatim>\<open>_parse_known_args\<close> of a sub-parser, which has no positional argument: options are
  consumed from left to right, every other string goes to \<^verbatim>\<open>extras\<close>.\<close>

fun consume :: "option_string_actions \<Rightarrow> (string \<times> pattern) list \<Rightarrow> Namespace \<Rightarrow> string list \<Rightarrow>
    nat + (Namespace \<times> string list)" where
  "consume opts [] ns extras = Inr (ns, extras)"
| "consume opts ((arg_string, PatO t) # following) ns extras =
     (case consume_optional opts arg_string t following ns of
        Inl status \<Rightarrow> Inl status
      | Inr (ns', new_extras, n) \<Rightarrow> consume opts (drop n following) ns' (extras @ new_extras))"
| "consume opts ((arg_string, p) # following) ns extras =
     consume opts following ns (extras @ [arg_string])"

definition parse_known_args :: "Parser \<Rightarrow> string list \<Rightarrow> nat + (Namespace \<times> string list)" where
  "parse_known_args parser arg_strings =
     (case arg_strings_pattern (option_strings parser) arg_strings of
        Inl status \<Rightarrow> Inl status
      | Inr pattern \<Rightarrow>
          (case consume (option_strings parser) pattern empty_namespace [] of
             Inl status \<Rightarrow> Inl status
           | Inr (ns, extras) \<Rightarrow>
               if list_ex (\<lambda>d. getattr d ns = None) (required parser) then Inl 2
               else Inr (ns, extras)))"

text \<open>\<^verbatim>\<open>_SubParsersAction\<close>: the first value must be one of the choices; the rest is parsed
  by that sub-parser, whose unrecognised strings are handed back.\<close>

definition SubParsersAction :: "string list \<Rightarrow> string list \<Rightarrow> nat + (Namespace \<times> string list)" where
  "SubParsersAction values extras =
     (case values of
        [] \<Rightarrow> Inl 2
      | parser_name # arg_strings \<Rightarrow>
          (case map_of name_parser_map parser_name of
             None \<Rightarrow> Inl 2
           | Some parser \<Rightarrow>
               (case parse_known_args parser arg_strings of
                  Inl status \<Rightarrow> Inl status
                | Inr (subnamespace, sub_extras) \<Rightarrow>
                    Inr (subnamespace\<lparr>command := Some parser_name\<rparr>, extras @ sub_extras))))"

text \<open>\<^verbatim>\<open>_parse_known_args\<close> of the main parser: options before the command are consumed;
  the first argument starts the \<^verbatim>\<open>A...\<close> positional of the sub-parser action, which takes
  every remaining string.\<close>

fun main_consume :: "(string \<times> pattern) list \<Rightarrow> Namespace \<Rightarrow> string list \<Rightarrow>
    nat + (Namespace \<times> string list)" where
  "main_consume [] ns extras = Inr (ns, extras)"
| "main_consume ((arg_string, PatO t) # following) ns extras =
     (case consume_optional (option_strings main_parser) arg_string t following ns of
        Inl status \<Rightarrow> Inl status
      | Inr (ns', new_extras, n) \<Rightarrow> main_consume (drop n following) ns' (extras @ new_extras))"
| "main_consume ((arg_string, PatA) # following) ns extras =
     SubParsersAction (arg_string # map fst following) extras"
| "main_consume ((arg_string, PatDash) # following) ns extras =
     (if following = [] then Inr (ns, extras @ [arg_string])
      else SubParsersAction (arg_string # map fst following) extras)"

definition parse_args :: "string list \<Rightarrow> nat + Namespace" where
  "parse_args args =
     (case arg_strings_pattern (option_strings main_parser) args of
        Inl status \<Rightarrow> Inl status
      | Inr pattern \<Rightarrow>
          (case main_consume pattern empty_namespace [] of
             Inl status \<Rightarrow> Inl status
           | Inr (ns, argv) \<Rightarrow> if argv \<noteq> [] then Inl 2 else Inr ns))"

section \<open>The entrypoint\<close>

subsection \<open>Messages, the source and the world\<close>

type_synonym json = string

datatype Status = SUCCEEDED | FAILED

record AirbyteConnectionStatus =
  status :: Status
  message :: "string option"

text \<open>Modelled from the spec: the class \<^verbatim>\<open>AirbyteMessage\<close> of \<^verbatim>\<open>airbyte_protocol\<close>, which
  entrypoint.py imports, is a discriminated union with the variants SPEC,
  CONNECTION_STATUS, CATALOG, RECORD, STATE and LOG, each carrying the payload of its kind.
  \<^verbatim>\<open>AirbyteMessage(type=Type.SPEC, spec=s)\<close> is \<open>SPEC s\<close>, and so on.\<close>

datatype AirbyteMessage =
    SPEC json
  | CONNECTION_STATUS AirbyteConnectionStatus
  | CATALOG json
  | RECORD json
  | STATE json
  | LOG json

record ConfigContainer =
  raw_config :: json
  rendered_config :: json
  raw_config_path :: "string option"
  rendered_config_path :: string

text \<open>The generator returned by \<^verbatim>\<open>Source.read\<close>: each \<^verbatim>\<open>next\<close> yields a message, ends
  the iteration or raises. It may go on forever.\<close>

codatatype generator =
    StopIteration
  | Yield AirbyteMessage generator
  | Raise string

text \<open>The methods of the \<^verbatim>\<open>Source\<close> instance that \<^verbatim>\<open>start\<close> calls (the logger argument
  is left out). A method returns or raises; \<open>Inl err\<close> is the exception it raised (a
  collaborator that calls \<^verbatim>\<open>sys.exit\<close> itself is not modelled).\<close>

record Source =
  spec :: "string + json"
  read_config :: "string option \<Rightarrow> string + json"
  transform_config :: "json \<Rightarrow> string + json"
  write_config :: "json \<Rightarrow> string \<Rightarrow> string + unit"
  check :: "ConfigContainer \<Rightarrow> string + AirbyteConnectionStatus"
  discover :: "ConfigContainer \<Rightarrow> string + json"
  read :: "ConfigContainer \<Rightarrow> string option \<Rightarrow> string option \<Rightarrow> string + generator"

datatype method_call =
    spec_call
  | read_config_call "string option"
  | transform_config_call json
  | write_config_call json string
  | check_call ConfigContainer
  | discover_call ConfigContainer
  | read_call ConfigContainer "string option" "string option"

text \<open>What the process does to its surroundings, in order: the call of \<^verbatim>\<open>parse_args\<close>,
  entering and leaving the temporary directory, calls of the source's methods, \<^verbatim>\<open>next\<close>
  on the generator, one \<^verbatim>\<open>print(message.json(exclude_unset=True))\<close> (one line on the
  output channel) and the two logger calls.\<close>

datatype event =
    ParseArgs "string list"
  | TemporaryDirectory_enter string
  | TemporaryDirectory_cleanup string
  | Call method_call
  | Next
  | Print AirbyteMessage
  | LoggerInfo string
  | LoggerError string

record world =
  events :: "event list"
  temp_dirs :: "string list"

text \<open>How \<^verbatim>\<open>start\<close> ends. It never returns: every path ends in \<^verbatim>\<open>sys.exit\<close>, in a
  \<^verbatim>\<open>raise\<close> of its own, or in an exception that a collaborator raised and nothing
  catches.\<close>

datatype outcome = SystemExit nat | Exception string | Propagated string

definition emit :: "event \<Rightarrow> world \<Rightarrow> world" where
  "emit e w = w\<lparr>events := events w @ [e]\<rparr>"

definition print :: "AirbyteMessage \<Rightarrow> world \<Rightarrow> world" where
  "print m w = emit (Print m) w"

text \<open>The lines written by \<^verbatim>\<open>print\<close>, in order.\<close>

fun printed :: "event list \<Rightarrow> AirbyteMessage list" where
  "printed [] = []"
| "printed (Print m # es) = m # printed es"
| "printed (e # es) = printed es"

text \<open>The method calls made, in order.\<close>

fun calls :: "event list \<Rightarrow> method_call list" where
  "calls [] = []"
| "calls (Call c # es) = c # calls es"
| "calls (e # es) = calls es"

text \<open>Calling a method of the source: the call is recorded; an exception ends the run,
  a result goes to the rest of the code.\<close>

definition call :: "method_call \<Rightarrow> string + 'a \<Rightarrow> ('a \<Rightarrow> world \<Rightarrow> (outcome \<times> world) option) \<Rightarrow>
    world \<Rightarrow> (outcome \<times> world) option" where
  "call c result rest w =
     (case result of
        Inl err \<Rightarrow> Some (Propagated err, emit (Call c) w)
      | Inr v \<Rightarrow> rest v (emit (Call c) w))"

text \<open>\<^verbatim>\<open>os.path.join(temp_dir, "config.json")\<close> on a POSIX system.\<close>

definition os_path_join :: "string \<Rightarrow> string \<Rightarrow> string" where
  "os_path_join a b =
     (if take 1 b = ''/'' then b
      else if a = [] \<or> last a = CHR ''/'' then a @ b
      else a @ ''/'' @ b)"

text \<open>\<^verbatim>\<open>with tempfile.TemporaryDirectory() as temp_dir\<close>: the directory exists while the
  body runs and is removed when the body is left, however it is left. The body of
  \<^verbatim>\<open>start\<close> has no normal end, so it hands over an outcome. \<open>None\<close>: the body runs
  forever.\<close>

definition TemporaryDirectory ::
  "string \<Rightarrow> (world \<Rightarrow> (outcome \<times> world) option) \<Rightarrow> world \<Rightarrow> (outcome \<times> world) option" where
  "TemporaryDirectory temp_dir body w =
     (case body (emit (TemporaryDirectory_enter temp_dir) (w\<lparr>temp_dirs := temp_dir # temp_dirs w\<rparr>)) of
        None \<Rightarrow> None
      | Some (out, w') \<Rightarrow>
          Some (out, emit (TemporaryDirectory_cleanup temp_dir)
                       (w'\<lparr>temp_dirs := removeAll temp_dir (temp_dirs w')\<rparr>)))"

subsection \<open>start, launch and main\<close>

text \<open>Lines 125-127: \<^verbatim>\<open>for message in generator: print(...)\<close>, then \<^verbatim>\<open>sys.exit(0)\<close>.\<close>

partial_function (option) for_loop :: "generator \<Rightarrow> world \<Rightarrow> (outcome \<times> world) option" where
  "for_loop generator w =
     (case generator of
        StopIteration \<Rightarrow> Some (SystemExit 0, emit Next w)
      | Raise err \<Rightarrow> Some (Propagated err, emit Next w)
      | Yield item generator' \<Rightarrow> for_loop generator' (print item (emit Next w)))"

text \<open>Lines 90-129, the body of the \<^verbatim>\<open>with\<close> statement.\<close>

definition start_body :: "Source \<Rightarrow> string \<Rightarrow> Namespace \<Rightarrow> string \<Rightarrow> world \<Rightarrow> (outcome \<times> world) option" where
  "start_body source temp_dir parsed_args cmd =
     (if cmd = ''spec'' then
        call spec_call (spec source) (\<lambda>s w. Some (SystemExit 0, print (SPEC s) w))
      else
        call (read_config_call (config parsed_args)) (read_config source (config parsed_args))
        (\<lambda>raw_config.
           let rendered_config_path = os_path_join temp_dir ''config.json'' in
           call (transform_config_call raw_config) (transform_config source raw_config)
           (\<lambda>rendered_config.
              call (write_config_call rendered_config rendered_config_path)
                (write_config source rendered_config rendered_config_path)
              (\<lambda>_.
                 let config_container =
                       \<lparr>raw_config = raw_config, rendered_config = rendered_config,
                        raw_config_path = config parsed_args,
                        rendered_config_path = rendered_config_path\<rparr>
                 in
                 if cmd = ''check'' then
                   call (check_call config_container) (check source config_container)
                   (\<lambda>check_result w.
                      Some (SystemExit 0,
                        print (CONNECTION_STATUS check_result)
                          (emit (if status check_result = SUCCEEDED
                                 then LoggerInfo ''Check succeeded''
                                 else LoggerError ''Check failed'') w)))
                 else if cmd = ''discover'' then
                   call (discover_call config_container) (discover source config_container)
                   (\<lambda>catalog w. Some (SystemExit 0, print (CATALOG catalog) w))
                 else if cmd = ''read'' then
                   call (read_call config_container (catalog parsed_args) (state parsed_args))
                     (read source config_container (catalog parsed_args) (state parsed_args))
                   for_loop
                 else (\<lambda>w. Some (Exception (''Unexpected command '' @ cmd), w))))))"

text \<open>Lines 48-129. \<^verbatim>\<open>not cmd\<close> holds for \<^verbatim>\<open>None\<close> and for the empty string.\<close>

definition start :: "Source \<Rightarrow> string \<Rightarrow> string list \<Rightarrow> world \<Rightarrow> (outcome \<times> world) option" where
  "start source temp_dir args w =
     (case parse_args args of
        Inl code \<Rightarrow> Some (SystemExit code, emit (ParseArgs args) w)
      | Inr parsed_args \<Rightarrow>
          (case command parsed_args of
             None \<Rightarrow> Some (Exception ''No command passed'', emit (ParseArgs args) w)
           | Some cmd \<Rightarrow>
               if cmd = [] then Some (Exception ''No command passed'', emit (ParseArgs args) w)
               else TemporaryDirectory temp_dir (start_body source temp_dir parsed_args cmd)
                      (emit (ParseArgs args) w)))"

definition launch :: "Source \<Rightarrow> string \<Rightarrow> string list \<Rightarrow> world \<Rightarrow> (outcome \<times> world) option" where
  "launch source temp_dir args w = start source temp_dir args w"

text \<open>Lines 36-39 and 136-143: \<^verbatim>\<open>impl()\<close> builds an object of the class named by the
  environment; \<^verbatim>\<open>isinstance(source, Source)\<close> tells whether it is a source.\<close>

datatype object = SourceInstance Source | OtherObject

definition main :: "string + object \<Rightarrow> string \<Rightarrow> string list \<Rightarrow> world \<Rightarrow> (outcome \<times> world) option" where
  "main impl temp_dir argv w =
     (case impl of
        Inl err \<Rightarrow> Some (Propagated err, w)
      | Inr (SourceInstance source) \<Rightarrow> launch source temp_dir argv w
      | Inr OtherObject \<Rightarrow>
          Some (Exception ''Source implementation provided does not implement Source class!'', w))"

text \<open>The exit status of the process: that of \<^verbatim>\<open>sys.exit\<close>, or 1 for an exception that
  nothing catches, be it raised by the entrypoint or by a collaborator.\<close>

fun exit_code :: "outcome \<Rightarrow> nat option" where
  "exit_code (SystemExit n) = Some n"
| "exit_code (Exception m) = Some 1"
| "exit_code (Propagated err) = Some 1"

text \<open>A generator that yields the given messages and then ends.\<close>

primrec generator_of :: "AirbyteMessage list \<Rightarrow> generator" where
  "generator_of [] = StopIteration"
| "generator_of (m # ms) = Yield m (generator_of ms)"

text \<open>A generator that yields the given messages and then goes on as \<open>rest\<close> does, which
  may end, raise or never end.\<close>

primrec yield_then :: "AirbyteMessage list \<Rightarrow> generator \<Rightarrow> generator" where
  "yield_then [] rest = rest"
| "yield_then (m # ms) rest = Yield m (yield_then ms rest)"

section \<open>Streams of the Amazon Ads source\<close>

text \<open>
  The module \<^verbatim>\<open>source_amazon_ads\<close> (streams, shared context, source) is not among the
  sources at hand; unit_tests/test_streams.py drives it. The streams below are therefore
  written from the specification, and the server they talk to from the test.
\<close>

text \<open>test_streams.py, lines 141-146: the mocked campaigns endpoint answers a request for
  \<^verbatim>\<open>startIndex\<close> and \<^verbatim>\<open>count\<close> with \<^verbatim>\<open>campaigns[start_index : start_index + count]\<close>.\<close>

definition campaigns_paginated_response_cb :: "'a list \<Rightarrow> nat \<Rightarrow> nat \<Rightarrow> 'a list" where
  "campaigns_paginated_response_cb campaigns start_index count =
     take count (drop start_index campaigns)"

text \<open>Modelled from the spec: \<^verbatim>\<open>PaginationStream.read_records\<close> is missing. It "drives
  repeated network requests with increasing offset/cursor parameters until a response
  page yields fewer records than the page size"; "a response page exactly equal to the
  page size does not terminate pagination". \<open>page_walk\<close> carries the records yielded and
  the number of requests issued so far. \<open>None\<close>: the walk never ends.\<close>

partial_function (option) page_walk ::
  "(nat \<Rightarrow> nat \<Rightarrow> 'a list) \<Rightarrow> nat \<Rightarrow> nat \<Rightarrow> 'a list \<Rightarrow> nat \<Rightarrow> ('a list \<times> nat) option" where
  "page_walk request PAGE_SIZE offset records requests =
     (let page = request offset PAGE_SIZE in
      if length page < PAGE_SIZE then Some (records @ page, requests + 1)
      else page_walk request PAGE_SIZE (offset + PAGE_SIZE) (records @ page) (requests + 1))"

definition PaginationStream_read_records ::
  "(nat \<Rightarrow> nat \<Rightarrow> 'a list) \<Rightarrow> nat \<Rightarrow> ('a list \<times> nat) option" where
  "PaginationStream_read_records request PAGE_SIZE = page_walk request PAGE_SIZE 0 [] 0"

text \<open>Modelled from the spec: \<^verbatim>\<open>DependentStream.read_records\<close> is missing. "The dependent
  stream issues one sub-extraction per cached upstream record"; "a dependent stream may
  restrict which upstream records it iterates over based on a predicate over upstream
  record fields". A sub-extraction that never ends keeps the stream from ending.\<close>

fun sub_extractions :: "('p \<Rightarrow> 'r list option) \<Rightarrow> 'p list \<Rightarrow> 'r list option" where
  "sub_extractions sub_extraction [] = Some []"
| "sub_extractions sub_extraction (p # ps) =
     (case sub_extraction p of
        None \<Rightarrow> None
      | Some rs \<Rightarrow>
          (case sub_extractions sub_extraction ps of
             None \<Rightarrow> None
           | Some rest \<Rightarrow> Some (rs @ rest)))"

definition DependentStream_read_records ::
  "('p \<Rightarrow> bool) \<Rightarrow> ('p \<Rightarrow> 'r list option) \<Rightarrow> 'p list \<Rightarrow> 'r list option" where
  "DependentStream_read_records predicate sub_extraction cached =
     sub_extractions sub_extraction (filter predicate cached)"

text \<open>The sub-extraction of the tests: the children of one upstream record, read page by
  page from the mocked endpoint.\<close>

definition paginated_children :: "('p \<Rightarrow> 'r list) \<Rightarrow> nat \<Rightarrow> 'p \<Rightarrow> 'r list option" where
  "paginated_children children PAGE_SIZE p =
     map_option fst
       (PaginationStream_read_records (campaigns_paginated_response_cb (children p)) PAGE_SIZE)"







section \<open>Sample values\<close>

text \<open>A source whose connectivity check fails and whose read yields two records; one whose
  check raises; the world before the process has done anything.\<close>

definition sample_source :: Source where
  "sample_source =
     \<lparr>spec = Inr ''{}'',
      read_config = (\<lambda>path. Inr ''{}''),
      transform_config = (\<lambda>raw. Inr raw),
      write_config = (\<lambda>rendered path. Inr ()),
      check = (\<lambda>container. Inr \<lparr>status = FAILED, message = Some ''unreachable''\<rparr>),
      discover = (\<lambda>container. Inr ''[]''),
      read = (\<lambda>container catalog_path state_path.
                Inr (generator_of [RECORD ''a'', RECORD ''b'']))\<rparr>"

definition raising_source :: Source where
  "raising_source = sample_source\<lparr>check := (\<lambda>container. Inl ''ConnectionError'')\<rparr>"

definition initial_world :: world where
  "initial_world = \<lparr>events = [], temp_dirs = []\<rparr>"


section \<open>Properties of the streams\<close>

subsection \<open>Pagination\<close>

lemma page_walk_slice:
  "0 < P \<Longrightarrow> off \<le> length data \<Longrightarrow>
   page_walk (campaigns_paginated_response_cb data) P off acc n =
     Some (acc @ drop off data, n + (length data - off) div P + 1)"
proof (induction "length data - off" arbitrary: off acc n rule: less_induct)
  case less
  let ?page = "campaigns_paginated_response_cb data off P"
  show ?case
  proof (cases "length data - off < P")
    case True
    then have "length ?page < P" "?page = drop off data"
      by (simp_all add: campaigns_paginated_response_cb_def)
    with True show ?thesis
      by (subst page_walk.simps) simp
  next
    case False
    then have full: "length ?page = P" and le: "off + P \<le> length data"
      using less.prems(2) by (simp_all add: campaigns_paginated_response_cb_def)
    have step: "page_walk (campaigns_paginated_response_cb data) P off acc n =
        page_walk (campaigns_paginated_response_cb data) P (off + P) (acc @ ?page) (n + 1)"
      using full by (subst page_walk.simps) simp
    have lt: "length data - (off + P) < length data - off"
      using less.prems le by simp
    have "?page @ drop (off + P) data = drop off data"
      by (simp add: campaigns_paginated_response_cb_def add.commute
          flip: drop_drop) 
    moreover have "(length data - off) div P = Suc ((length data - (off + P)) div P)"
      using le less.prems(1) False by (metis diff_diff_left div_if not_gr_zero)
    ultimately show ?thesis
      using less.hyps[OF lt less.prems(1) le, of "acc @ ?page" "n + 1"] step by simp
  qed
qed

lemma requests_ceiling:
  assumes "0 < P"
  shows "int (K div P + 1) = (if K mod P = 0 then \<lceil>real (K + 1) / real P\<rceil> else \<lceil>real K / real P\<rceil>)"
proof -
  define q where "q = K div P"
  define r where "r = K mod P"
  have K: "real K = real q * real P + real r"
    unfolding q_def r_def by (metis div_mult_mod_eq of_nat_add of_nat_mult)
  have r: "real r < real P"
    unfolding r_def using assms by simp
  have P: "0 < real P" "1 \<le> real P"
    using assms by simp_all
  have a: "\<lceil>real (K + 1) / real P\<rceil> = int (q + 1)" if "r = 0"
  proof (rule ceiling_unique)
    show "of_int (int (q + 1)) - 1 < real (K + 1) / real P"
      using P K that by (simp add: field_simps)
    show "real (K + 1) / real P \<le> of_int (int (q + 1))"
      using P K that by (simp add: field_simps)
  qed
  have b: "\<lceil>real K / real P\<rceil> = int (q + 1)" if "r \<noteq> 0"
  proof (rule ceiling_unique)
    show "of_int (int (q + 1)) - 1 < real K / real P"
      using P K that by (simp add: field_simps)
    show "real K / real P \<le> of_int (int (q + 1))"
      using P K r by (simp add: field_simps)
  qed
  show ?thesis using a b by (simp add: q_def r_def)
qed

lemma read_records_slice:
  "0 < P \<Longrightarrow> PaginationStream_read_records (campaigns_paginated_response_cb data) P =
     Some (data, length data div P + 1)"
  using page_walk_slice[of P 0 data "[]" 0] by (simp add: PaginationStream_read_records_def)

lemma full_page_continues:
  "length (request offset P) = P \<Longrightarrow>
   page_walk request P offset records requests =
     page_walk request P (offset + P) (records @ request offset P) (requests + 1)"
  by (subst page_walk.simps) simp

text \<open>Claim C2. For every upstream dataset of size \<open>K\<close> served by the mocked endpoint and
  every page size \<open>P \<ge> 1\<close>, one full \<open>read_records\<close> run of a pagination stream ends, yields
  exactly the \<open>K\<close> records, and issues \<open>\<lceil>(K+1)/P\<rceil>\<close> page requests when \<open>K\<close> is a multiple
  of \<open>P\<close> and \<open>\<lceil>K/P\<rceil>\<close> otherwise; a page of exactly \<open>P\<close> records never ends the walk: the
  next page is requested.\<close>

theorem pagination_completeness:
  assumes "1 \<le> P"
  shows "\<exists>n. PaginationStream_read_records (campaigns_paginated_response_cb data) P = Some (data, n)
           \<and> int n = (if length data mod P = 0 then \<lceil>real (length data + 1) / real P\<rceil>
                      else \<lceil>real (length data) / real P\<rceil>)
           \<and> (\<forall>request offset records requests.
                 length (request offset P) = P \<longrightarrow>
                 page_walk request P offset records requests =
                   page_walk request P (offset + P) (records @ request offset P) (requests + 1))"
proof -
  have P: "0 < P" using assms by simp
  show ?thesis
    using read_records_slice[OF P, of data] requests_ceiling[OF P, of "length data"]
      full_page_continues[of _ _ P]
    by blast
qed

theorem pagination_completeness_witness:
  "(1::nat) \<le> 2 \<and>
   PaginationStream_read_records (campaigns_paginated_response_cb [10, 20, 30, 40 :: nat]) 2
     = Some ([10, 20, 30, 40], 3) \<and>
   (3::int) = \<lceil>real (length [10, 20, 30, 40 :: nat] + 1) / real (2::nat)\<rceil>"
proof -
  have h: "(1::nat) \<le> 2" by simp
  obtain n where n: "PaginationStream_read_records (campaigns_paginated_response_cb [10, 20, 30, 40 :: nat]) 2
      = Some ([10, 20, 30, 40], n)"
    and c: "int n = (if length [10, 20, 30, 40 :: nat] mod 2 = 0
        then \<lceil>real (length [10, 20, 30, 40 :: nat] + 1) / real (2::nat)\<rceil>
        else \<lceil>real (length [10, 20, 30, 40 :: nat]) / real (2::nat)\<rceil>)"
    using pagination_completeness[OF h, of "[10, 20, 30, 40 :: nat]"] by blast
  have five: "\<lceil>(5::real) / 2\<rceil> = 3"
    by (rule ceiling_unique) simp_all
  from c have "int n = 3" by (simp add: five)
  then have "n = 3" by simp
  with n h five show ?thesis by simp
qed

subsection \<open>Dependent streams\<close>

lemma sub_extractions_concat:
  "(\<And>p. p \<in> set ps \<Longrightarrow> sub p = Some (f p)) \<Longrightarrow> sub_extractions sub ps = Some (concat (map f ps))"
  by (induction ps) simp_all

lemma length_concat_const:
  "(\<And>p. p \<in> set ps \<Longrightarrow> length (f p) = C) \<Longrightarrow> length (concat (map f ps)) = length ps * C"
  by (induction ps) simp_all

lemma paginated_children_eq:
  "0 < P \<Longrightarrow> paginated_children children P p = Some (children p)"
  by (simp add: paginated_children_def read_records_slice)

text \<open>Claim C3. If the filter predicate of a dependent stream retains \<open>U\<close> of the cached
  upstream records and each retained record has a child result of size \<open>C\<close>, read page by
  page, then one full \<open>read_records\<close> run of the dependent stream ends and yields the
  children of the retained records, parent after parent: as many records as the sum of the
  per-parent sizes, which is \<open>U * C\<close>.\<close>

theorem dependent_fan_out:
  assumes "1 \<le> PAGE_SIZE"
    and "\<forall>p \<in> set (filter predicate cached). length (children p) = C"
  shows "\<exists>out. DependentStream_read_records predicate (paginated_children children PAGE_SIZE) cached
             = Some out
           \<and> out = concat (map children (filter predicate cached))
           \<and> length out = sum_list (map (\<lambda>p. length (children p)) (filter predicate cached))
           \<and> length out = length (filter predicate cached) * C"
proof -
  let ?ps = "filter predicate cached"
  have P: "0 < PAGE_SIZE" using assms(1) by simp
  have "sub_extractions (paginated_children children PAGE_SIZE) ?ps = Some (concat (map children ?ps))"
    by (rule sub_extractions_concat) (simp add: paginated_children_eq[OF P])
  moreover have "length (concat (map children ?ps)) = length ?ps * C"
    by (rule length_concat_const) (use assms(2) in blast)
  moreover have "length (concat (map children ?ps)) = sum_list (map (\<lambda>p. length (children p)) ?ps)"
    by (simp add: length_concat comp_def)
  ultimately show ?thesis
    by (simp add: DependentStream_read_records_def)
qed


theorem dependent_fan_out_witness:
  "(1::nat) \<le> 2 \<and>
   DependentStream_read_records (\<lambda>p. p \<noteq> (0::nat)) (paginated_children (\<lambda>p. [p, p, p]) 2) [0, 1, 2]
     = Some [1, 1, 1, 2, 2, 2] \<and>
   length [1, 1, 1, 2, 2, 2 :: nat] = length (filter (\<lambda>p. p \<noteq> (0::nat)) [0, 1, 2]) * 3"
proof -
  have h1: "(1::nat) \<le> 2" by simp
  have h2: "\<forall>p \<in> set (filter (\<lambda>p. p \<noteq> (0::nat)) [0, 1, 2]). length [p, p, p] = 3" by simp
  show ?thesis
    using dependent_fan_out[OF h1 h2] by simp
qed

subsection \<open>The shared context\<close>








section \<open>Properties of the entrypoint\<close>

lemma printed_append: "printed (es @ fs) = printed es @ printed fs"
  by (induction es rule: printed.induct) simp_all

lemma calls_append: "calls (es @ fs) = calls es @ calls fs"
  by (induction es rule: calls.induct) simp_all

lemma printed_loop: "printed (concat (map (\<lambda>m. [Next, Print m]) ms)) = ms"
  by (induction ms) simp_all

lemma calls_loop: "calls (concat (map (\<lambda>m. [Next, Print m]) ms)) = []"
  by (induction ms) simp_all

lemma for_loop_generator_of:
  "for_loop (generator_of ms) w =
     Some (SystemExit 0, w\<lparr>events := events w @ concat (map (\<lambda>m. [Next, Print m]) ms) @ [Next]\<rparr>)"
proof (induction ms arbitrary: w)
  case Nil
  show ?case by (subst for_loop.simps) (simp add: emit_def)
next
  case (Cons m ms)
  show ?case
    by (subst for_loop.simps) (simp add: Cons.IH emit_def print_def)
qed

text \<open>Claim C1. For every argument vector that the parser accepts with the command
  \<^verbatim>\<open>check\<close>, once the configuration has been loaded, transformed and written and
  \<^verbatim>\<open>Source.check\<close> has returned a result, \<^verbatim>\<open>start\<close> leaves by \<^verbatim>\<open>sys.exit(0)\<close> whatever
  the status of the result is, SUCCEEDED or FAILED, and has printed exactly one line, the
  CONNECTION_STATUS message that carries the result: a failed check shows in the payload
  only, never in the exit code.\<close>

theorem check_exits_zero:
  assumes "parse_args args = Inr parsed_args"
    and "command parsed_args = Some ''check''"
    and "read_config source (config parsed_args) = Inr raw"
    and "transform_config source raw = Inr rendered"
    and "write_config source rendered (os_path_join temp_dir ''config.json'') = Inr ()"
    and "check source \<lparr>raw_config = raw, rendered_config = rendered,
           raw_config_path = config parsed_args,
           rendered_config_path = os_path_join temp_dir ''config.json''\<rparr> = Inr check_result"
  shows "\<exists>w'. start source temp_dir args w = Some (SystemExit 0, w')
           \<and> exit_code (SystemExit 0) = Some 0
           \<and> printed (events w') = printed (events w) @ [CONNECTION_STATUS check_result]"
  using assms
  by (simp add: start_def TemporaryDirectory_def start_body_def call_def emit_def print_def
      printed_append Let_def)

theorem check_exits_zero_witness:
  "parse_args [''check'', ''--config'', ''c.json''] =
     Inr \<lparr>command = Some ''check'', config = Some ''c.json'', catalog = None, state = None\<rparr> \<and>
   check sample_source \<lparr>raw_config = ''{}'', rendered_config = ''{}'',
       raw_config_path = Some ''c.json'',
       rendered_config_path = os_path_join ''/tmp/t'' ''config.json''\<rparr>
     = Inr \<lparr>status = FAILED, message = Some ''unreachable''\<rparr> \<and>
   (\<exists>w'. start sample_source ''/tmp/t'' [''check'', ''--config'', ''c.json''] initial_world
           = Some (SystemExit 0, w')
      \<and> printed (events w') = [CONNECTION_STATUS \<lparr>status = FAILED, message = Some ''unreachable''\<rparr>])"
proof -
  have p: "parse_args [''check'', ''--config'', ''c.json''] =
     Inr \<lparr>command = Some ''check'', config = Some ''c.json'', catalog = None, state = None\<rparr>"
    by code_simp
  show ?thesis
    using p check_exits_zero[OF p, of sample_source "''{}''" "''{}''" "''/tmp/t''"
        "\<lparr>status = FAILED, message = Some ''unreachable''\<rparr>" initial_world]
    by (simp add: sample_source_def initial_world_def)
qed

subsection \<open>The temporary directory\<close>

lemma for_loop_result:
  assumes "for_loop g w = Some r"
  shows "temp_dirs (snd r) = temp_dirs w \<and> (\<exists>evs. events (snd r) = events w @ evs) \<and>
     (fst r = SystemExit 0 \<or> (\<exists>err. fst r = Propagated err))"
  using assms
proof (induct rule: for_loop.raw_induct[rotated 1, consumes 1, case_names step])
  case (step loop g w r)
  show ?case
  proof (cases g)
    case StopIteration
    with step(2) show ?thesis by (auto simp: emit_def)
  next
    case (Yield item g')
    with step(2) have "loop g' (print item (emit Next w)) = Some r" by simp
    from step(1)[OF this] show ?thesis by (auto simp: emit_def print_def)
  next
    case (Raise err)
    with step(2) show ?thesis by (auto simp: emit_def)
  qed
qed

lemma start_body_result:
  assumes "start_body source temp_dir parsed_args cmd w = Some (out, w')"
  shows "temp_dirs w' = temp_dirs w \<and> (\<exists>evs. events w' = events w @ evs) \<and>
     (cmd \<in> {''spec'', ''check'', ''discover'', ''read''} \<longrightarrow>
        out = SystemExit 0 \<or> (\<exists>err. out = Propagated err))"
  using assms
  by (auto simp: start_body_def call_def emit_def print_def Let_def
      split: if_splits sum.splits dest!: for_loop_result)

text \<open>Claim C8. For every invocation that the parser accepts with the command \<^verbatim>\<open>check\<close>,
  \<^verbatim>\<open>discover\<close> or \<^verbatim>\<open>read\<close>, however \<^verbatim>\<open>start\<close> comes to its end (a \<^verbatim>\<open>sys.exit(0)\<close> inside
  a command branch, or an exception that a method of the source raised), the temporary
  directory that held the rendered configuration is entered before anything else is done
  and has been removed at that end: it is not among the live directories and its clean-up
  is the last thing that happened.\<close>

theorem temporary_directory_released:
  assumes "parse_args args = Inr parsed_args"
    and "command parsed_args = Some cmd"
    and "cmd \<in> {''check'', ''discover'', ''read''}"
    and "start source temp_dir args w = Some (out, w')"
  shows "temp_dir \<notin> set (temp_dirs w') \<and>
     (\<exists>body. events w' = events w @ [ParseArgs args, TemporaryDirectory_enter temp_dir] @ body
                 @ [TemporaryDirectory_cleanup temp_dir])"
proof -
  from assms(3) have ne: "cmd \<noteq> []" by auto
  let ?w1 = "emit (TemporaryDirectory_enter temp_dir)
      ((emit (ParseArgs args) w)\<lparr>temp_dirs := temp_dir # temp_dirs (emit (ParseArgs args) w)\<rparr>)"
  from assms(1,2,4) ne obtain w2 where
    body: "start_body source temp_dir parsed_args cmd ?w1 = Some (out, w2)"
    and w': "w' = emit (TemporaryDirectory_cleanup temp_dir)
        (w2\<lparr>temp_dirs := removeAll temp_dir (temp_dirs w2)\<rparr>)"
    by (auto simp: start_def TemporaryDirectory_def split: option.splits)
  from start_body_result[OF body] obtain evs where "events w2 = events ?w1 @ evs"
    by blast
  with w' show ?thesis by (simp add: emit_def)
qed

theorem temporary_directory_released_witness:
  "start raising_source ''/tmp/t'' [''check'', ''--config'', ''c.json''] initial_world =
     Some (Propagated ''ConnectionError'',
       \<lparr>events = [ParseArgs [''check'', ''--config'', ''c.json''],
          TemporaryDirectory_enter ''/tmp/t'', Call (read_config_call (Some ''c.json'')),
          Call (transform_config_call ''{}''), Call (write_config_call ''{}'' ''/tmp/t/config.json''),
          Call (check_call \<lparr>raw_config = ''{}'', rendered_config = ''{}'',
            raw_config_path = Some ''c.json'', rendered_config_path = ''/tmp/t/config.json''\<rparr>),
          TemporaryDirectory_cleanup ''/tmp/t''],
        temp_dirs = []\<rparr>) \<and>
   ''/tmp/t'' \<notin> set (temp_dirs \<lparr>events = [], temp_dirs = []\<rparr>)"
proof -
  have p: "parse_args [''check'', ''--config'', ''c.json''] =
     Inr \<lparr>command = Some ''check'', config = Some ''c.json'', catalog = None, state = None\<rparr>"
    by code_simp
  have s: "start raising_source ''/tmp/t'' [''check'', ''--config'', ''c.json''] initial_world =
     Some (Propagated ''ConnectionError'',
       \<lparr>events = [ParseArgs [''check'', ''--config'', ''c.json''],
          TemporaryDirectory_enter ''/tmp/t'', Call (read_config_call (Some ''c.json'')),
          Call (transform_config_call ''{}''), Call (write_config_call ''{}'' ''/tmp/t/config.json''),
          Call (check_call \<lparr>raw_config = ''{}'', rendered_config = ''{}'',
            raw_config_path = Some ''c.json'', rendered_config_path = ''/tmp/t/config.json''\<rparr>),
          TemporaryDirectory_cleanup ''/tmp/t''],
        temp_dirs = []\<rparr>)"
    by (simp add: p start_def TemporaryDirectory_def start_body_def call_def emit_def Let_def
        raising_source_def sample_source_def initial_world_def os_path_join_def)
  have c: "''check'' \<in> {''check'', ''discover'', ''read''}" by simp
  show ?thesis
    using temporary_directory_released[OF p _ c s] s by simp
qed

subsection \<open>The parsed command\<close>

lemma setattr_command: "command (setattr d v ns) = command ns"
  by (cases d) simp_all

lemma take_action_command: "take_action t ns = Inr ns' \<Longrightarrow> command ns' = command ns"
  by (induction t ns rule: take_action.induct) (auto simp: setattr_command)

lemma take_actions_command: "take_actions ts ns = Inr ns' \<Longrightarrow> command ns' = command ns"
  by (induction ts arbitrary: ns) (auto split: sum.splits dest: take_action_command)

lemma consume_optional_command:
  "consume_optional opts s t following ns = Inr (ns', ex, n) \<Longrightarrow> command ns' = command ns"
  by (auto simp: consume_optional_def split: option.splits sum.splits dest: take_actions_command)

lemma map_of_name_parser_map:
  "map_of name_parser_map name = Some p \<Longrightarrow> name \<in> {''spec'', ''check'', ''discover'', ''read''}"
  by (auto simp: name_parser_map_def split: if_splits)

lemma SubParsersAction_command:
  "SubParsersAction values extras = Inr (ns, ex) \<Longrightarrow>
     \<exists>name \<in> {''spec'', ''check'', ''discover'', ''read''}. command ns = Some name"
  by (auto simp: SubParsersAction_def split: list.splits option.splits sum.splits
      dest!: map_of_name_parser_map)

lemma main_consume_command:
  "main_consume pattern ns extras = Inr (ns', ex) \<Longrightarrow> command ns = None \<Longrightarrow>
     command ns' = None \<or> (\<exists>name \<in> {''spec'', ''check'', ''discover'', ''read''}. command ns' = Some name)"
proof (induction pattern ns extras rule: main_consume.induct)
  case (1 ns extras)
  then show ?case by simp
next
  case (2 arg_string t following ns extras)
  then show ?case
    by (auto split: sum.splits dest!: consume_optional_command)
next
  case (3 arg_string following ns extras)
  then show ?case using SubParsersAction_command by simp
next
  case (4 arg_string following ns extras)
  then show ?case using SubParsersAction_command by (simp split: if_splits)
qed

lemma parse_args_command:
  "parse_args args = Inr ns \<Longrightarrow>
     command ns = None \<or> (\<exists>name \<in> {''spec'', ''check'', ''discover'', ''read''}. command ns = Some name)"
  unfolding parse_args_def
  by (auto split: sum.splits if_splits dest!: main_consume_command simp: empty_namespace_def)

subsection \<open>The pattern of the argument strings\<close>

lemma arg_strings_pattern_fst:
  "arg_strings_pattern opts args = Inr pattern \<Longrightarrow> map fst pattern = args"
  by (induction args arbitrary: pattern) (auto simp: comp_def split: if_splits sum.splits)

lemma arg_strings_pattern_option:
  "arg_strings_pattern opts args = Inr pattern \<Longrightarrow> (s, PatO t) \<in> set pattern \<Longrightarrow>
     s \<in> set args \<and> parse_optional opts s = Inr (Some t)"
  by (induction args arbitrary: pattern) (auto split: if_splits sum.splits option.splits)



text \<open>How an argument string can come to stand for an action of the parser.\<close>

lemma parse_optional_action:
  assumes "parse_optional opts s = Inr (Some t)" and "ot_action t = Some a"
  shows "map_of opts s = Some a
       \<or> map_of opts (takeWhile (\<lambda>c. c \<noteq> CHR ''='') s) = Some a
       \<or> (prefix ''--'' s \<and>
            (\<exists>os. filter (\<lambda>(os, a). prefix (takeWhile (\<lambda>c. c \<noteq> CHR ''='') s) os) opts = [(os, a)]))
       \<or> (\<not> prefix ''--'' s \<and> 2 \<le> length s \<and>
            (\<exists>os. (os, a) \<in> set opts \<and> (os = take 2 s \<or> prefix s os)))"
proof (cases "map_of opts s")
  case (Some a')
  with assms show ?thesis by (auto simp: parse_optional_def split: if_splits)
next
  case None
  note direct = None
  let ?p = "takeWhile (\<lambda>c. c \<noteq> CHR ''='') s"
  show ?thesis
  proof (cases "CHR ''='' \<in> set s \<and> map_of opts ?p \<noteq> None")
    case True
    with assms direct show ?thesis
      by (auto simp: parse_optional_def partition_eq_def split: if_splits)
  next
    case False
    from assms direct False obtain tuples where
      tuples: "get_option_tuples opts s = Inr tuples" "length tuples = 1" "hd tuples = t"
      and len: "s \<noteq> []" "length s \<noteq> 1"
      by (auto simp: parse_optional_def partition_eq_def split: if_splits sum.splits option.splits)
    from tuples(2,3) have t: "tuples = [t]"
      by (cases tuples) auto
    from len obtain c0 c1 r where s: "s = c0 # c1 # r"
      by (cases s; cases "tl s") auto
    show ?thesis
    proof (cases "c0 = CHR ''-'' \<and> c1 = CHR ''-''")
      case True
      with tuples(1) s t have
        "map (\<lambda>(os, a). OptionTuple (Some a) os
                (if CHR ''='' \<in> set s then Some ''='' else None)
                (if CHR ''='' \<in> set s then Some (drop 1 (dropWhile (\<lambda>c. c \<noteq> CHR ''='') s)) else None))
            (filter (\<lambda>(os, a). prefix ?p os) opts) = [t]"
        by (auto simp: get_option_tuples_def partition_eq_def)
      then obtain x where x: "filter (\<lambda>(os, a). prefix ?p os) opts = [x]"
        and tx: "t = (case x of (os, a) \<Rightarrow> OptionTuple (Some a) os
                (if CHR ''='' \<in> set s then Some ''='' else None)
                (if CHR ''='' \<in> set s then Some (drop 1 (dropWhile (\<lambda>c. c \<noteq> CHR ''='') s)) else None))"
        by (auto simp: map_eq_Cons_conv)
      from tx assms(2) have "snd x = a" by (cases x) auto
      with x True s show ?thesis by (cases x) auto
    next
      case False
      with tuples(1) s t have c0: "c0 = CHR ''-''" "c1 \<noteq> CHR ''-''"
        and "concat (map (\<lambda>(os, a).
                   if os = take 2 s
                   then [OptionTuple (Some a) os (Some '''') (Some (drop 2 s))]
                   else if prefix s os then [OptionTuple (Some a) os None None]
                   else []) opts) = [t]"
        by (auto simp: get_option_tuples_def split: if_splits)
      then have "t \<in> set (concat (map (\<lambda>(os, a).
                   if os = take 2 s
                   then [OptionTuple (Some a) os (Some '''') (Some (drop 2 s))]
                   else if prefix s os then [OptionTuple (Some a) os None None]
                   else []) opts))"
        by simp
      then obtain os a' where "(os, a') \<in> set opts" "os = take 2 s \<or> prefix s os" "ot_action t = Some a'"
        by (auto split: if_splits)
      with assms(2) c0 s show ?thesis by auto
    qed
  qed
qed





subsection \<open>Help options and the empty argument vector\<close>

lemma consume_optional_loop_first:
  "consume_optional_loop opts following a os sep ex acc = Inr (tuples, new_extras, n) \<Longrightarrow>
     \<exists>values rest. tuples = acc @ (a, values) # rest"
proof (induction opts following a os sep ex acc arbitrary: tuples new_extras n
    rule: consume_optional_loop.induct)
  case (1 opts following action option_string sep explicit_arg action_tuples)
  show ?case
  proof (cases explicit_arg)
    case None
    with 1(4) show ?thesis
      by (subst (asm) consume_optional_loop.simps)
         (auto split: if_splits list.splits pattern.splits)
  next
    case (Some e)
    show ?thesis
    proof (cases "arg_count action = 0 \<and> take 1 (drop 1 option_string) \<noteq> ''-'' \<and> e \<noteq> []
        \<and> \<not> (sep = Some ''='' \<or> hd e = CHR ''-'')")
      case False
      with 1(4) Some show ?thesis
        by (subst (asm) consume_optional_loop.simps) (auto split: if_splits)
    next
      case True
      show ?thesis
      proof (cases "map_of opts [CHR ''-'', hd e]")
        case None
        with 1(4) Some True show ?thesis
          by (subst (asm) consume_optional_loop.simps) auto
      next
        case (Some action')
        note a' = Some
        from True have c: "arg_count action = 0 \<and> take 1 (drop 1 option_string) \<noteq> ''-'' \<and> e \<noteq> []"
          and d: "\<not> (sep = Some ''='' \<or> hd e = CHR ''-'')" by auto
        consider (one) "tl e = []" | (eq) "tl e \<noteq> []" "hd (tl e) = CHR ''=''"
          | (more) "tl e \<noteq> []" "hd (tl e) \<noteq> CHR ''=''" by blast
        then show ?thesis
        proof cases
          case one
          with 1(4) \<open>explicit_arg = Some e\<close> True a'
          have "consume_optional_loop opts following action' [CHR ''-'', hd e] None None
                  (action_tuples @ [(action, [])]) = Inr (tuples, new_extras, n)"
            by (subst (asm) consume_optional_loop.simps) auto
          from 1(1)[OF \<open>explicit_arg = Some e\<close> c d a' one this] show ?thesis by auto
        next
          case eq
          with 1(4) \<open>explicit_arg = Some e\<close> True a'
          have "consume_optional_loop opts following action' [CHR ''-'', hd e] (Some ''='')
                  (Some (tl (tl e))) (action_tuples @ [(action, [])]) = Inr (tuples, new_extras, n)"
            by (subst (asm) consume_optional_loop.simps) auto
          from 1(2)[OF \<open>explicit_arg = Some e\<close> c d a' eq this] show ?thesis by auto
        next
          case more
          with 1(4) \<open>explicit_arg = Some e\<close> True a'
          have "consume_optional_loop opts following action' [CHR ''-'', hd e] (Some '''')
                  (Some (tl e)) (action_tuples @ [(action, [])]) = Inr (tuples, new_extras, n)"
            by (subst (asm) consume_optional_loop.simps) auto
          from 1(3)[OF \<open>explicit_arg = Some e\<close> c d a' more this] show ?thesis by auto
        qed
      qed
    qed
  qed
qed

lemma consume_optional_help:
  assumes "ot_action t = Some HelpAction"
    and "consume_optional opts s t following ns = Inr x"
  shows False
proof -
  from assms obtain tuples new_extras n ns' where
    l: "consume_optional_loop opts following HelpAction (ot_option_string t) (ot_sep t)
          (ot_explicit_arg t) [] = Inr (tuples, new_extras, n)"
    and ta: "take_actions tuples ns = Inr ns'"
    by (auto simp: consume_optional_def split: sum.splits)
  from consume_optional_loop_first[OF l] obtain vs rest where
    "tuples = (HelpAction, vs) # rest" by auto
  with ta show False by simp
qed

lemma parse_optional_action_known:
  assumes "parse_optional opts s = Inr (Some t)" and "ot_action t = Some a"
  shows "a \<in> snd ` set opts"
proof -
  let ?p = "takeWhile (\<lambda>c. c \<noteq> CHR ''='') s"
  from parse_optional_action[OF assms]
  consider (exact) "map_of opts s = Some a"
    | (sep) "map_of opts ?p = Some a"
    | (long) os where "filter (\<lambda>(os, a). prefix ?p os) opts = [(os, a)]"
    | (short) os where "(os, a) \<in> set opts"
    by blast
  then show ?thesis
  proof cases
    case exact
    then have "(s, a) \<in> set opts" by (rule map_of_SomeD)
    then show ?thesis by force
  next
    case sep
    then have "(?p, a) \<in> set opts" by (rule map_of_SomeD)
    then show ?thesis by force
  next
    case long
    have "(os, a) \<in> set (filter (\<lambda>(os, a). prefix ?p os) opts)"
      unfolding long by simp
    then have "(os, a) \<in> set opts" by simp
    then show ?thesis by force
  next
    case short
    then show ?thesis by force
  qed
qed

lemma main_parser_token:
  assumes "parse_optional (option_strings main_parser) s = Inr (Some t)"
  shows "ot_action t = None \<or> ot_action t = Some HelpAction"
proof (cases "ot_action t")
  case None
  then show ?thesis by simp
next
  case (Some a)
  from parse_optional_action_known[OF assms Some] have "a = HelpAction"
    by (auto simp: main_parser_def help_options_def)
  with Some show ?thesis by simp
qed

lemma SubParsersAction_extras:
  "SubParsersAction values extras = Inr (ns', ex) \<Longrightarrow> extras \<noteq> [] \<Longrightarrow> ex \<noteq> []"
  by (auto simp: SubParsersAction_def split: list.splits option.splits sum.splits)

lemma main_consume_extras:
  "main_consume pattern ns extras = Inr (ns', ex) \<Longrightarrow> extras \<noteq> [] \<Longrightarrow> ex \<noteq> []"
proof (induction pattern ns extras rule: main_consume.induct)
  case (1 ns extras)
  then show ?case by simp
next
  case (2 arg_string t following ns extras)
  from 2(2) obtain ns'' new_extras n where
    c: "consume_optional (option_strings main_parser) arg_string t following ns
          = Inr (ns'', new_extras, n)"
    and m: "main_consume (drop n following) ns'' (extras @ new_extras) = Inr (ns', ex)"
    by (auto split: sum.splits)
  from 2(3) have "extras @ new_extras \<noteq> []" by simp
  from 2(1)[OF c refl refl m this] show ?case .
next
  case (3 arg_string following ns extras)
  then show ?case by (auto dest: SubParsersAction_extras)
next
  case (4 arg_string following ns extras)
  then show ?case by (auto dest: SubParsersAction_extras split: if_splits)
qed

lemma main_consume_no_command:
  assumes "\<forall>s t. (s, PatO t) \<in> set pattern \<longrightarrow> ot_action t = None \<or> ot_action t = Some HelpAction"
    and "main_consume pattern ns [] = Inr (ns', ex)" and "command ns' = None"
  shows "pattern = [] \<or> ex \<noteq> []"
proof (cases pattern)
  case Nil
  then show ?thesis by simp
next
  case (Cons x following)
  obtain s p where x: "x = (s, p)" by (cases x)
  show ?thesis
  proof (cases p)
    case PatA
    with assms(2,3) Cons x show ?thesis
      by (auto dest: SubParsersAction_command)
  next
    case PatDash
    with assms(2,3) Cons x show ?thesis
      by (auto dest: SubParsersAction_command split: if_splits)
  next
    case (PatO t)
    with assms(1) Cons x have "ot_action t = None \<or> ot_action t = Some HelpAction" by auto
    then show ?thesis
    proof
      assume "ot_action t = None"
      with assms(2) Cons x PatO have "main_consume following ns [s] = Inr (ns', ex)"
        by (simp add: consume_optional_def)
      from main_consume_extras[OF this] show ?thesis by simp
    next
      assume "ot_action t = Some HelpAction"
      with assms(2) Cons x PatO consume_optional_help show ?thesis
        by (auto split: sum.splits)
    qed
  qed
qed

lemma parse_args_no_command:
  assumes "parse_args args = Inr ns" and "command ns = None"
  shows "args = []"
proof -
  from assms(1) obtain pattern where
    p: "arg_strings_pattern (option_strings main_parser) args = Inr pattern"
    and m: "main_consume pattern empty_namespace [] = Inr (ns, [])"
    by (auto simp: parse_args_def split: sum.splits if_splits)
  have "\<forall>s t. (s, PatO t) \<in> set pattern \<longrightarrow> ot_action t = None \<or> ot_action t = Some HelpAction"
    using arg_strings_pattern_option[OF p] main_parser_token by blast
  from main_consume_no_command[OF this m assms(2)] have "pattern = []" by simp
  with arg_strings_pattern_fst[OF p] show ?thesis by simp
qed

subsection \<open>The exit status of the parser\<close>















subsection \<open>What the parser accepts\<close>


















subsection \<open>The commands\<close>

lemma for_loop_yield_then:
  "for_loop (yield_then items rest) w =
     for_loop rest (w\<lparr>events := events w @ concat (map (\<lambda>m. [Next, Print m]) items)\<rparr>)"
proof (induction items arbitrary: w)
  case Nil
  show ?case by simp
next
  case (Cons m ms)
  show ?case
    by (subst for_loop.simps) (simp add: Cons.IH emit_def print_def)
qed

text \<open>Claim C5. For every accepted \<^verbatim>\<open>read\<close> invocation whose configuration steps return
  and whose \<^verbatim>\<open>Source.read\<close> returns a generator, \<^verbatim>\<open>start\<close> prints one line per message the
  generator yields, in the order they are yielded, each one before the generator is asked
  for the next: when the generator yields \<open>messages\<close> and ends, the run ends in
  \<^verbatim>\<open>sys.exit(0)\<close> with exactly these lines printed; and whatever the generator does after
  its first items (go on, raise, never end), the loop has printed those items, one line
  each and in order, when it asks for the next.\<close>

theorem read_prints_each_message:
  assumes "parse_args args = Inr parsed_args"
    and "command parsed_args = Some ''read''"
    and "read_config source (config parsed_args) = Inr raw"
    and "transform_config source raw = Inr rendered"
    and "write_config source rendered (os_path_join temp_dir ''config.json'') = Inr ()"
    and "read source \<lparr>raw_config = raw, rendered_config = rendered,
           raw_config_path = config parsed_args,
           rendered_config_path = os_path_join temp_dir ''config.json''\<rparr>
           (catalog parsed_args) (state parsed_args) = Inr (generator_of messages)"
  shows "(\<exists>before w'. start source temp_dir args w = Some (SystemExit 0, w')
           \<and> exit_code (SystemExit 0) = Some 0
           \<and> events w' = events w @ before @ concat (map (\<lambda>m. [Next, Print m]) messages)
                 @ [Next, TemporaryDirectory_cleanup temp_dir]
           \<and> printed before = []
           \<and> printed (events w') = printed (events w) @ messages)
       \<and> (\<forall>items rest v. for_loop (yield_then items rest) v =
             for_loop rest (v\<lparr>events := events v @ concat (map (\<lambda>m. [Next, Print m]) items)\<rparr>))"
  using assms
  by (simp add: start_def TemporaryDirectory_def start_body_def call_def emit_def
      printed_append for_loop_generator_of printed_loop Let_def for_loop_yield_then)

theorem read_prints_each_message_witness:
  "\<exists>before w'. start sample_source ''/tmp/t'' [''read'', ''--config'', ''c.json'', ''--catalog'', ''k.json'']
       initial_world = Some (SystemExit 0, w')
     \<and> events w' = before @ [Next, Print (RECORD ''a''), Next, Print (RECORD ''b''), Next,
          TemporaryDirectory_cleanup ''/tmp/t'']
     \<and> printed (events w') = [RECORD ''a'', RECORD ''b'']"
proof -
  have p: "parse_args [''read'', ''--config'', ''c.json'', ''--catalog'', ''k.json''] =
     Inr \<lparr>command = Some ''read'', config = Some ''c.json'', catalog = Some ''k.json'', state = None\<rparr>"
    by code_simp
  have "(\<exists>before w'. start sample_source ''/tmp/t''
              [''read'', ''--config'', ''c.json'', ''--catalog'', ''k.json''] initial_world
              = Some (SystemExit 0, w')
           \<and> exit_code (SystemExit 0) = Some 0
           \<and> events w' = events initial_world @ before
                 @ concat (map (\<lambda>m. [Next, Print m]) [RECORD ''a'', RECORD ''b''])
                 @ [Next, TemporaryDirectory_cleanup ''/tmp/t'']
           \<and> printed before = []
           \<and> printed (events w') = printed (events initial_world) @ [RECORD ''a'', RECORD ''b''])
       \<and> (\<forall>items rest v. for_loop (yield_then items rest) v =
             for_loop rest (v\<lparr>events := events v @ concat (map (\<lambda>m. [Next, Print m]) items)\<rparr>))"
    by (rule read_prints_each_message[OF p, where raw = "''{}''" and rendered = "''{}''"])
       (simp_all add: sample_source_def)
  then obtain before w' where
    s: "start sample_source ''/tmp/t''
          [''read'', ''--config'', ''c.json'', ''--catalog'', ''k.json''] initial_world
          = Some (SystemExit 0, w')"
    and e: "events w' = events initial_world @ before
              @ concat (map (\<lambda>m. [Next, Print m]) [RECORD ''a'', RECORD ''b''])
              @ [Next, TemporaryDirectory_cleanup ''/tmp/t'']"
    and pr: "printed (events w') = printed (events initial_world) @ [RECORD ''a'', RECORD ''b'']"
    by blast
  show ?thesis
    by (rule exI[of _ before], rule exI[of _ w'])
       (use s e pr in \<open>simp add: initial_world_def\<close>)
qed

text \<open>Claim C6. For every invocation that the parser accepts with the command \<^verbatim>\<open>spec\<close>, if
  \<^verbatim>\<open>Source.spec\<close> returns, \<^verbatim>\<open>start\<close> prints exactly one message, the SPEC message built
  from that result, and leaves by \<^verbatim>\<open>sys.exit(0)\<close>; the only method of the source it calls
  is \<^verbatim>\<open>spec\<close>: no configuration is read, transformed or written and no
  \<^verbatim>\<open>ConfigContainer\<close> is built.\<close>

theorem spec_emits_one_message:
  assumes "parse_args args = Inr parsed_args"
    and "command parsed_args = Some ''spec''"
    and "spec source = Inr s"
  shows "\<exists>w'. start source temp_dir args w = Some (SystemExit 0, w')
           \<and> exit_code (SystemExit 0) = Some 0
           \<and> events w' = events w @ [ParseArgs args, TemporaryDirectory_enter temp_dir,
                 Call spec_call, Print (SPEC s), TemporaryDirectory_cleanup temp_dir]
           \<and> calls (events w') = calls (events w) @ [spec_call]
           \<and> printed (events w') = printed (events w) @ [SPEC s]"
  using assms
  by (simp add: start_def TemporaryDirectory_def start_body_def call_def emit_def print_def
      printed_append calls_append)

theorem spec_emits_one_message_witness:
  "\<exists>w'. start sample_source ''/tmp/t'' [''spec''] initial_world = Some (SystemExit 0, w')
     \<and> events w' = [ParseArgs [''spec''], TemporaryDirectory_enter ''/tmp/t'',
           Call spec_call, Print (SPEC ''{}''), TemporaryDirectory_cleanup ''/tmp/t'']
     \<and> calls (events w') = [spec_call]
     \<and> printed (events w') = [SPEC ''{}'']"
proof -
  have p: "parse_args [''spec''] =
     Inr \<lparr>command = Some ''spec'', config = None, catalog = None, state = None\<rparr>"
    by code_simp
  show ?thesis
    using spec_emits_one_message[OF p, of sample_source "''{}''" "''/tmp/t''" initial_world]
    by (simp add: sample_source_def initial_world_def)
qed

text \<open>Claim C10. When the object that \<^verbatim>\<open>impl()\<close> builds is not an instance of \<^verbatim>\<open>Source\<close>,
  \<^verbatim>\<open>main\<close> raises its exception and nothing else has happened: the arguments have not been
  parsed, nothing has been printed and no method of a source has been called (the world
  is as it was).\<close>

theorem main_rejects_non_source:
  "main (Inr OtherObject) temp_dir argv w =
     Some (Exception ''Source implementation provided does not implement Source class!'', w)"
  by (simp add: main_def)

text \<open>Claim C9 as stated fails at the empty argument vector: the parser accepts it, and
  the parsed command is \<^verbatim>\<open>None\<close>, not one of the four names.\<close>

theorem accepted_without_command:
  "parse_args [] = Inr empty_namespace \<and> command empty_namespace = None \<and>
   command empty_namespace \<noteq> Some ''spec'' \<and> command empty_namespace \<noteq> Some ''check'' \<and>
   command empty_namespace \<noteq> Some ''discover'' \<and> command empty_namespace \<noteq> Some ''read''"
  by (simp add: parse_args_def empty_namespace_def)

text \<open>Claim C9, amended. For every argument vector the parser accepts, the parsed command
  is either absent (\<^verbatim>\<open>None\<close>), which happens for the empty vector only and is caught by the
  "No command passed" guard, or one of \<^verbatim>\<open>spec\<close>, \<^verbatim>\<open>check\<close>, \<^verbatim>\<open>discover\<close>, \<^verbatim>\<open>read\<close>; so
  no run of \<^verbatim>\<open>start\<close>, on any argument vector and with any source, ends in the
  "Unexpected command" exception of the last dispatch branch.\<close>

theorem unexpected_command_unreachable:
  "(\<forall>parsed_args. parse_args args = Inr parsed_args \<longrightarrow>
      (command parsed_args = None \<and> args = []) \<or>
      command parsed_args \<in> {Some ''spec'', Some ''check'', Some ''discover'', Some ''read''}) \<and>
   (\<forall>source temp_dir w cmd w'.
      start source temp_dir args w \<noteq> Some (Exception (''Unexpected command '' @ cmd), w'))"
proof (intro conjI allI impI)
  fix parsed_args
  assume p: "parse_args args = Inr parsed_args"
  from parse_args_command[OF p] parse_args_no_command[OF p]
  show "(command parsed_args = None \<and> args = []) \<or>
      command parsed_args \<in> {Some ''spec'', Some ''check'', Some ''discover'', Some ''read''}"
    by auto
next
  fix source temp_dir w cmd w'
  show "start source temp_dir args w \<noteq> Some (Exception (''Unexpected command '' @ cmd), w')"
  proof
    assume s: "start source temp_dir args w = Some (Exception (''Unexpected command '' @ cmd), w')"
    show False
    proof (cases "parse_args args")
      case (Inl code)
      with s show False by (simp add: start_def)
    next
      case (Inr parsed_args)
      from parse_args_command[OF Inr] show False
      proof
        assume "command parsed_args = None"
        with s Inr show False by (simp add: start_def)
      next
        assume "\<exists>name \<in> {''spec'', ''check'', ''discover'', ''read''}. command parsed_args = Some name"
        then obtain name where n: "name \<in> {''spec'', ''check'', ''discover'', ''read''}"
          and c: "command parsed_args = Some name" by blast
        from n have ne: "name \<noteq> []" by auto
        from s Inr c ne obtain w2 where
          "start_body source temp_dir parsed_args name
             (emit (TemporaryDirectory_enter temp_dir)
               ((emit (ParseArgs args) w)\<lparr>temp_dirs := temp_dir # temp_dirs (emit (ParseArgs args) w)\<rparr>))
           = Some (Exception (''Unexpected command '' @ cmd), w2)"
          by (auto simp: start_def TemporaryDirectory_def split: option.splits)
        from start_body_result[OF this] n show False by auto
      qed
    qed
  qed
qed

theorem unexpected_command_unreachable_witness:
  "parse_args [''discover'', ''--config'', ''c.json''] =
     Inr \<lparr>command = Some ''discover'', config = Some ''c.json'', catalog = None, state = None\<rparr> \<and>
   Some ''discover'' \<in> {Some ''spec'', Some ''check'', Some ''discover'', Some ''read''} \<and>
   start sample_source ''/tmp/t'' [''discover'', ''--config'', ''c.json''] initial_world \<noteq>
     Some (Exception (''Unexpected command '' @ ''discover''), initial_world)"
proof -
  have p: "parse_args [''discover'', ''--config'', ''c.json''] =
     Inr \<lparr>command = Some ''discover'', config = Some ''c.json'', catalog = None, state = None\<rparr>"
    by code_simp
  show ?thesis
    using unexpected_command_unreachable[of "[''discover'', ''--config'', ''c.json'']"] p
    by auto
qed




end
